theory Spec2Isabelle
  imports Main "HOL-Library.Word"
begin

unbundle bit_operations_syntax

section \<open>Go values shared by the type implementations\<close>

type_synonym byte = "8 word"
type_synonym uint32 = "32 word"

text \<open>A Go byte slice: \<open>None\<close> is the nil slice, \<open>Some bs\<close> a slice holding \<open>bs\<close>.\<close>

type_synonym go_bytes = "byte list option"

fun bytes_of :: "go_bytes \<Rightarrow> byte list" where
  "bytes_of None = []"
| "bytes_of (Some bs) = bs"

definition len_bytes :: "go_bytes \<Rightarrow> nat" where
  "len_bytes val = length (bytes_of val)"

text \<open>The dynamically typed values (\<open>any\<close>) the type implementations receive.\<close>

datatype go_any =
    GoNil
  | GoUint32 uint32
  | GoString "byte list"
  | GoBytes go_bytes
  | GoInt64 "64 word"

datatype go_error =
    ErrInvalidType
  | PanicIndexOutOfRange
  | PanicTypeAssertion

section \<open>server/types/xid.go\<close>

text \<open>\<open>binary.BigEndian.PutUint32\<close> on a fresh 4-byte slice.\<close>

definition PutUint32 :: "uint32 \<Rightarrow> byte list" where
  "PutUint32 v = [ucast (drop_bit 24 v), ucast (drop_bit 16 v), ucast (drop_bit 8 v), ucast v]"

text \<open>\<open>binary.BigEndian.Uint32\<close>: reads the first four bytes; a shorter slice panics.\<close>

fun BigEndian_Uint32 :: "byte list \<Rightarrow> uint32 option" where
  "BigEndian_Uint32 (b0 # b1 # b2 # b3 # rest) =
     Some (ucast b3 OR push_bit 8 (ucast b2) OR push_bit 16 (ucast b1) OR push_bit 24 (ucast b0))"
| "BigEndian_Uint32 _ = None"

text \<open>
  \<open>XidType.SerializeValue\<close>. \<open>XidType.Convert\<close> is \<open>convertUint32\<close>, a helper that
  is not part of the sources at hand; it is the parameter \<open>convert\<close>.
\<close>

definition XidType_SerializeValue ::
  "(go_any \<Rightarrow> go_error + go_any) \<Rightarrow> go_any \<Rightarrow> go_error + go_bytes" where
  "XidType_SerializeValue convert val =
     (if val = GoNil then Inr None
      else case convert val of
        Inl err \<Rightarrow> Inl err
      | Inr converted \<Rightarrow>
          (case converted of
             GoUint32 u \<Rightarrow> Inr (Some (PutUint32 (u + push_bit 31 1)))
           | _ \<Rightarrow> Inl PanicTypeAssertion))"

text \<open>
  \<open>XidType.DeserializeValue\<close>. \<open>len(val) == 0\<close> holds of the nil and of the empty
  slice; a slice of one to three bytes makes \<open>binary.BigEndian.Uint32\<close> panic.
\<close>

definition XidType_DeserializeValue :: "go_bytes \<Rightarrow> go_error + go_any" where
  "XidType_DeserializeValue val =
     (if len_bytes val = 0 then Inr GoNil
      else case BigEndian_Uint32 (bytes_of val) of
        None \<Rightarrow> Inl PanicIndexOutOfRange
      | Some w \<Rightarrow> Inr (GoUint32 (w - push_bit 31 1)))"

text \<open>The number a byte sequence denotes when read most significant byte first.\<close>

definition be_nat :: "byte list \<Rightarrow> nat" where
  "be_nat bs = foldl (\<lambda>acc b. acc * 256 + unat b) 0 bs"

section \<open>Package functions: left (src/unnamed/part_004)\<close>

text \<open>
  The parameter types of the function framework. Their declarations are not part of
  the sources at hand; \<open>left_string\<close> reads the fields \<open>Value\<close> and \<open>IsNull\<close> only.
  \<open>IntegerType.Value\<close> is a signed machine integer; it is an \<open>int\<close> here, which covers
  every width, since \<open>left_string\<close> only compares it with zero and adds a negative
  \<open>Value\<close> to a length that is not negative, which cannot overflow.
\<close>

record StringType =
  str_Value :: "byte list"
  str_IsNull :: bool

record IntegerType =
  int_Value :: int
  int_IsNull :: bool

datatype go_panic = PanicSliceBounds

text \<open>The slice expression \<open>s[:k]\<close> of Go: it panics unless \<open>0 \<le> k \<le> len(s)\<close>.\<close>

definition slice_to :: "byte list \<Rightarrow> int \<Rightarrow> go_panic + byte list" where
  "slice_to s k =
     (if 0 \<le> k \<and> k \<le> int (length s) then Inr (take (nat k) s) else Inl PanicSliceBounds)"

text \<open>\<open>left_string\<close>. The error result is nil on every return, so only the panic is kept.\<close>

definition left_string :: "StringType \<Rightarrow> IntegerType \<Rightarrow> go_panic + StringType" where
  "left_string string n =
     (if str_IsNull string \<or> int_IsNull n then Inr \<lparr>str_Value = [], str_IsNull = True\<rparr>
      else if int_Value n \<ge> 0 then
        (case slice_to (str_Value string) (int_Value n) of
           Inl p \<Rightarrow> Inl p
         | Inr v \<Rightarrow> Inr \<lparr>str_Value = v, str_IsNull = False\<rparr>)
      else
        (case slice_to (str_Value string) (int (length (str_Value string)) + int_Value n) of
           Inl p \<Rightarrow> Inl p
         | Inr v \<Rightarrow> Inr \<lparr>str_Value = v, str_IsNull = False\<rparr>))"

section \<open>Package server: the accept loop of the listener (src/unnamed/part_006)\<close>

text \<open>
  What one call of \<open>l.listener.Accept()\<close> returns: a connection, or an error with its
  message.
\<close>

datatype 'c accept_result = Accepted 'c | AcceptError string

text \<open>
  What the loop does, in order: it prints an error, or it builds a connection handler
  for the connection and the configured handler and starts \<open>HandleConnection\<close> with
  the \<open>go\<close> statement.
\<close>

datatype ('c, 'h) accept_action =
    PrintUnableToAccept string
  | GoHandleConnection 'c 'h

text \<open>
  \<open>Listener.Accept\<close>, run against the results the successive calls of
  \<open>l.listener.Accept()\<close> return. The second component tells whether the loop has left
  (\<open>break\<close>); when the results run out first, the loop is still waiting in
  \<open>l.listener.Accept()\<close>.
\<close>

fun Listener_Accept :: "'h \<Rightarrow> 'c accept_result list \<Rightarrow> ('c, 'h) accept_action list \<times> bool" where
  "Listener_Accept handler [] = ([], False)"
| "Listener_Accept handler (AcceptError err # rest) =
     (if err = ''use of closed network connection'' then ([], True)
      else (case Listener_Accept handler rest of
              (acts, left) \<Rightarrow> (PrintUnableToAccept err # acts, left)))"
| "Listener_Accept handler (Accepted conn # rest) =
     (case Listener_Accept handler rest of
        (acts, left) \<Rightarrow> (GoHandleConnection conn handler # acts, left))"

text \<open>The one action the loop takes for one result that does not end it.\<close>

fun action_of :: "'h \<Rightarrow> 'c accept_result \<Rightarrow> ('c, 'h) accept_action" where
  "action_of handler (Accepted conn) = GoHandleConnection conn handler"
| "action_of handler (AcceptError err) = PrintUnableToAccept err"

definition listener_closed :: "'c accept_result \<Rightarrow> bool" where
  "listener_closed r = (r = AcceptError ''use of closed network connection'')"

section \<open>postgres/connection: message formats\<close>

text \<open>
  The package \<open>connection\<close> (the field schema and the codec engine) is not part of
  the sources at hand; the message definitions of \<open>postgres/messages\<close> use its types
  \<open>MessageFormat\<close>, \<open>FieldGroup\<close>, the field types and the field flags.

  Modelled from the spec: the wire types of a field are a fixed 1-byte value, a fixed
  2-byte value, a fixed 4-byte signed integer, a null-terminated string, a
  length-prefixed byte string and the raw remaining bytes; \<open>Byte1\<close>, \<open>Int32\<close> and
  \<open>ByteN\<close> are the names the message definitions use.
\<close>

datatype FieldType = Byte1 | Int16 | Int32 | String | ByteCounted | ByteN

text \<open>
  Modelled from the spec: the flags of a field are none, the header tag and the
  self-inclusive message length; a field literal that sets no flag has none.
\<close>

datatype FieldFlags = NoFlags | Header | MessageLengthInclusive

text \<open>
  The value a field holds (\<open>any\<close> in Go): the message definitions store \<open>int32\<close> and
  \<open>[]byte\<close> values. A byte slice is the list of its bytes (the nil and the empty slice
  are both the empty list).
\<close>

datatype FieldData = DInt32 "32 word" | DBytes "byte list" | DString "byte list"

record Field =
  fld_Name :: string
  fld_Type :: FieldType
  fld_Flags :: FieldFlags
  fld_Data :: FieldData

record MessageFormat =
  mf_Name :: string
  mf_Fields :: "Field list"

datatype codec_error =
    SchemaMismatch
  | UnknownMessageType byte
  | MalformedMessage
  | PanicNoSuchField
  | PanicTypeAssertion

text \<open>
  Modelled from the spec: \<open>MessageFormat.Copy\<close> of the missing package; a message
  instance is constructed fresh per call, so the copy is the same value, sharing nothing.
\<close>

definition Copy :: "MessageFormat \<Rightarrow> MessageFormat" where
  "Copy m = m"

text \<open>
  Modelled from the spec: \<open>Field(name).MustWrite(v)\<close> and \<open>Field(name).MustGet()\<close> of
  the missing package. A message instance pairs the schema with field values by field
  name: writing stores the value in the first field of that name, reading returns it;
  the \<open>Must\<close> forms panic when there is no such field.
\<close>

fun write_field :: "string \<Rightarrow> FieldData \<Rightarrow> Field list \<Rightarrow> Field list option" where
  "write_field name v [] = None"
| "write_field name v (f # fs) =
     (if fld_Name f = name then Some (f\<lparr>fld_Data := v\<rparr> # fs)
      else map_option ((#) f) (write_field name v fs))"

definition MustWrite :: "MessageFormat \<Rightarrow> string \<Rightarrow> FieldData \<Rightarrow> codec_error + MessageFormat" where
  "MustWrite m name v =
     (case write_field name v (mf_Fields m) of
        None \<Rightarrow> Inl PanicNoSuchField
      | Some fs \<Rightarrow> Inr (m\<lparr>mf_Fields := fs\<rparr>))"

definition MustGet :: "MessageFormat \<Rightarrow> string \<Rightarrow> codec_error + FieldData" where
  "MustGet m name =
     (case find (\<lambda>f. fld_Name f = name) (mf_Fields m) of
        None \<Rightarrow> Inl PanicNoSuchField
      | Some f \<Rightarrow> Inr (fld_Data f))"

text \<open>
  Modelled from the spec: \<open>MatchesStructure\<close> of the missing package, the structural
  equality check over the field name, type and flag sequences; it fails with
  \<open>SchemaMismatch\<close> if the shapes differ. \<open>None\<close> is the nil error.
\<close>

definition field_structure :: "MessageFormat \<Rightarrow> (string \<times> FieldType \<times> FieldFlags) list" where
  "field_structure m = map (\<lambda>f. (fld_Name f, fld_Type f, fld_Flags f)) (mf_Fields m)"

definition MatchesStructure :: "MessageFormat \<Rightarrow> MessageFormat \<Rightarrow> codec_error option" where
  "MatchesStructure s expected =
     (if field_structure s = field_structure expected then None else Some SchemaMismatch)"

section \<open>postgres/messages/copy_data.go and parse_complete.go\<close>

record CopyData =
  Data :: "byte list"

datatype ParseComplete = ParseComplete

text \<open>A value of the interface \<open>connection.Message\<close>.\<close>

datatype Message = MsgCopyData CopyData | MsgParseComplete ParseComplete

text \<open>\<open>int32('d')\<close> is 100 and \<open>int32('1')\<close> is 49.\<close>

definition copyDataDefault :: MessageFormat where
  "copyDataDefault =
     \<lparr>mf_Name = ''CopyData'',
      mf_Fields =
        [\<lparr>fld_Name = ''Header'', fld_Type = Byte1, fld_Flags = Header, fld_Data = DInt32 100\<rparr>,
         \<lparr>fld_Name = ''MessageLength'', fld_Type = Int32, fld_Flags = MessageLengthInclusive,
          fld_Data = DInt32 0\<rparr>,
         \<lparr>fld_Name = ''Data'', fld_Type = ByteN, fld_Flags = NoFlags, fld_Data = DBytes []\<rparr>]\<rparr>"

definition parseCompleteDefault :: MessageFormat where
  "parseCompleteDefault =
     \<lparr>mf_Name = ''ParseComplete'',
      mf_Fields =
        [\<lparr>fld_Name = ''Header'', fld_Type = Byte1, fld_Flags = Header, fld_Data = DInt32 49\<rparr>,
         \<lparr>fld_Name = ''MessageLength'', fld_Type = Int32, fld_Flags = MessageLengthInclusive,
          fld_Data = DInt32 4\<rparr>]\<rparr>"

text \<open>\<open>CopyData.Encode\<close>: the copy of the default message with \<open>Data\<close> written.\<close>

definition CopyData_Encode :: "CopyData \<Rightarrow> codec_error + MessageFormat" where
  "CopyData_Encode m = MustWrite (Copy copyDataDefault) ''Data'' (DBytes (Data m))"

text \<open>
  \<open>CopyData.Decode\<close>: the structure check, then the type assertion \<open>.([]byte)\<close> on
  the value of \<open>Data\<close>, which panics on a value of another type.
\<close>

definition CopyData_Decode :: "MessageFormat \<Rightarrow> codec_error + Message" where
  "CopyData_Decode s =
     (case MatchesStructure s copyDataDefault of
        Some err \<Rightarrow> Inl err
      | None \<Rightarrow>
          (case MustGet s ''Data'' of
             Inl p \<Rightarrow> Inl p
           | Inr (DBytes d) \<Rightarrow> Inr (MsgCopyData \<lparr>Data = d\<rparr>)
           | Inr _ \<Rightarrow> Inl PanicTypeAssertion))"

definition ParseComplete_encode :: "ParseComplete \<Rightarrow> codec_error + MessageFormat" where
  "ParseComplete_encode m = Inr (Copy parseCompleteDefault)"

definition ParseComplete_decode :: "MessageFormat \<Rightarrow> codec_error + Message" where
  "ParseComplete_decode s =
     (case MatchesStructure s parseCompleteDefault of
        Some err \<Rightarrow> Inl err
      | None \<Rightarrow> Inr (MsgParseComplete ParseComplete))"

text \<open>
  The framing of a tagged message, after the spec: the first field is the one header
  tag, of one byte and holding a constant; the second is the one self-inclusive message
  length, a 4-byte integer; the fields after them are the payload and carry neither flag.
\<close>

fun is_int32 :: "FieldData \<Rightarrow> bool" where
  "is_int32 (DInt32 c) = True"
| "is_int32 _ = False"

definition tagged_framing :: "MessageFormat \<Rightarrow> bool" where
  "tagged_framing m =
     (case mf_Fields m of
        h # l # payload \<Rightarrow>
          fld_Flags h = Header \<and> fld_Type h = Byte1 \<and> is_int32 (fld_Data h)
          \<and> fld_Flags l = MessageLengthInclusive \<and> fld_Type l = Int32
          \<and> list_all (\<lambda>f. fld_Flags f = NoFlags) payload
      | _ \<Rightarrow> False)"

definition count_flag :: "FieldFlags \<Rightarrow> MessageFormat \<Rightarrow> nat" where
  "count_flag fl m = length (filter (\<lambda>f. fld_Flags f = fl) (mf_Fields m))"

definition header_tag :: "MessageFormat \<Rightarrow> FieldData option" where
  "header_tag m = map_option fld_Data (find (\<lambda>f. fld_Flags f = Header) (mf_Fields m))"

section \<open>Go's unicode/utf8, as server/types/varchar.go uses it\<close>

text \<open>
  The lead bytes of multi-byte encodings, after the table \<open>first\<close> and the accept ranges
  of Go's \<open>unicode/utf8\<close>: the size of the encoding and the range the second byte must
  lie in. Every other byte is ASCII or invalid, a rune of one byte.
\<close>

definition first_info :: "byte \<Rightarrow> (nat \<times> byte \<times> byte) option" where
  "first_info c =
     (if 0xC2 \<le> c \<and> c \<le> 0xDF then Some (2, 0x80, 0xBF)
      else if c = 0xE0 then Some (3, 0xA0, 0xBF)
      else if 0xE1 \<le> c \<and> c \<le> 0xEC then Some (3, 0x80, 0xBF)
      else if c = 0xED then Some (3, 0x80, 0x9F)
      else if 0xEE \<le> c \<and> c \<le> 0xEF then Some (3, 0x80, 0xBF)
      else if c = 0xF0 then Some (4, 0x90, 0xBF)
      else if 0xF1 \<le> c \<and> c \<le> 0xF3 then Some (4, 0x80, 0xBF)
      else if c = 0xF4 then Some (4, 0x80, 0x8F)
      else None)"

text \<open>
  The width \<open>utf8.DecodeRuneInString\<close> and \<open>utf8.DecodeRune\<close> return: 0 for the empty
  input, the size of a well-formed encoding, and 1 for an erroneous or short one.
\<close>

fun rune_width :: "byte list \<Rightarrow> nat" where
  "rune_width [] = 0"
| "rune_width (s0 # rest) =
     (case first_info s0 of
        None \<Rightarrow> 1
      | Some (sz, lo, hi) \<Rightarrow>
          if length (s0 # rest) < sz then 1
          else (case rest of
             [] \<Rightarrow> 1
           | s1 # r1 \<Rightarrow>
               if s1 < lo \<or> hi < s1 then 1
               else if sz \<le> 2 then 2
               else (case r1 of
                  [] \<Rightarrow> 1
                | s2 # r2 \<Rightarrow>
                    if s2 < 0x80 \<or> 0xBF < s2 then 1
                    else if sz \<le> 3 then 3
                    else (case r2 of
                       [] \<Rightarrow> 1
                     | s3 # r3 \<Rightarrow> if s3 < 0x80 \<or> 0xBF < s3 then 1 else 4))))"

lemma rune_width_pos: "s \<noteq> [] \<Longrightarrow> 1 \<le> rune_width s"
  by (cases s) (auto split: option.splits list.splits)

text \<open>
  \<open>utf8.RuneCountInString\<close> and \<open>utf8.RuneCount\<close>: the number of runes, where an
  erroneous or short encoding is a single rune of width 1 byte.
\<close>

function RuneCount :: "byte list \<Rightarrow> nat" where
  "RuneCount s = (if s = [] then 0 else Suc (RuneCount (drop (rune_width s) s)))"
  by pat_completeness auto
termination
proof (relation "measure length")
  show "wf (measure length)"
    by simp
next
  fix s :: "byte list"
  assume "s \<noteq> []"
  then show "(drop (rune_width s) s, s) \<in> measure length"
    using rune_width_pos [of s] by (cases s) auto
qed

declare RuneCount.simps [simp del]

text \<open>
  The loop of \<open>Convert\<close>: \<open>n\<close> times, decode one rune and drop its bytes from \<open>val\<close>.
\<close>

fun skip_runes :: "nat \<Rightarrow> byte list \<Rightarrow> byte list" where
  "skip_runes 0 val = val"
| "skip_runes (Suc i) val = skip_runes i (drop (rune_width val) val)"

section \<open>server/types/varchar.go\<close>

record VarCharType =
  Length :: uint32

datatype ConvertInRange = InRange | OutOfRange

text \<open>
  The string and the byte-slice case of \<open>VarCharType.Convert\<close> do the same on the
  bytes. \<open>uint32(len(val))\<close> and \<open>uint32(utf8.RuneCountInString(val))\<close> keep the low 32
  bits of the count; the comparisons with \<open>b.Length\<close> are unsigned.
\<close>

definition truncate_runes :: "uint32 \<Rightarrow> byte list \<Rightarrow> byte list" where
  "truncate_runes len val =
     (if (word_of_nat (length val) :: uint32) > len then
        if (word_of_nat (RuneCount val) :: uint32) > len then
          take (length val - length (skip_runes (unat len) val)) val
        else val
      else val)"

text \<open>\<open>VarCharType.Convert\<close>: the value, the range flag and the error (\<open>None\<close> is nil).\<close>

definition VarCharType_Convert ::
  "VarCharType \<Rightarrow> go_any \<Rightarrow> go_any \<times> ConvertInRange \<times> go_error option" where
  "VarCharType_Convert b val =
     (case val of
        GoString v \<Rightarrow> (GoString (truncate_runes (Length b) v), InRange, None)
      | GoBytes v \<Rightarrow> (GoString (truncate_runes (Length b) (bytes_of v)), InRange, None)
      | GoNil \<Rightarrow> (GoNil, InRange, None)
      | _ \<Rightarrow> (GoNil, OutOfRange, Some ErrInvalidType))"

section \<open>postgres/connection: the codec engine and the message registry\<close>

text \<open>
  Modelled from the spec: the encoding of one field value in its wire type, of the
  missing codec engine. Numeric fields are big-endian; a string is null-terminated; a
  length-prefixed byte string has a 4-byte length header computed from the payload; the
  raw bytes are written as they are. \<open>None\<close> where the value is not of the wire type, or
  its length does not fit the 4-byte signed header.
\<close>

fun encode_value :: "FieldType \<Rightarrow> FieldData \<Rightarrow> byte list option" where
  "encode_value Byte1 (DInt32 v) = Some [ucast v]"
| "encode_value Int16 (DInt32 v) = Some [ucast (drop_bit 8 v), ucast v]"
| "encode_value Int32 (DInt32 v) = Some (PutUint32 v)"
| "encode_value String (DString str) = Some (str @ [0])"
| "encode_value ByteCounted (DBytes bs) =
     (if length bs < 2 ^ 31 then Some (PutUint32 (word_of_nat (length bs)) @ bs) else None)"
| "encode_value ByteN (DBytes bs) = Some bs"
| "encode_value _ _ = None"

text \<open>
  Modelled from the spec: \<open>encode\<close> of the missing codec engine. It writes every field
  in declared order; for the field flagged as the inclusive length it first serializes
  the fields after it into a staging buffer, computes the length (the size of the length
  field itself plus every subsequent field) and writes the length field before the
  staging buffer, and the header byte before both. The spec gives \<open>encode\<close> an error
  result and makes the encoded length equal the byte count, so a length that the 4-byte
  signed field cannot hold is an error.
\<close>

fun encode_fields :: "Field list \<Rightarrow> byte list option" where
  "encode_fields [] = Some []"
| "encode_fields (f # fs) =
     (case encode_fields fs of
        None \<Rightarrow> None
      | Some staged \<Rightarrow>
          if fld_Flags f = MessageLengthInclusive then
            (if 4 + length staged < 2 ^ 31
             then Some (PutUint32 (word_of_nat (4 + length staged)) @ staged) else None)
          else
            (case encode_value (fld_Type f) (fld_Data f) of
               None \<Rightarrow> None
             | Some bs \<Rightarrow> Some (bs @ staged)))"

definition encode :: "MessageFormat \<Rightarrow> codec_error + byte list" where
  "encode m = (case encode_fields (mf_Fields m) of None \<Rightarrow> Inl MalformedMessage | Some bs \<Rightarrow> Inr bs)"

text \<open>
  The value of the inclusive length field of an encoded tagged message: the four bytes
  after the tag, most significant byte first.
\<close>

definition wire_length :: "byte list \<Rightarrow> nat" where
  "wire_length bs = be_nat (take 4 (drop 1 bs))"

text \<open>The variants of the catalog at hand, and the default schema of each.\<close>

datatype MessageKind = KCopyData | KParseComplete

fun DefaultMessage :: "MessageKind \<Rightarrow> MessageFormat" where
  "DefaultMessage KCopyData = copyDataDefault"
| "DefaultMessage KParseComplete = parseCompleteDefault"

definition header_byte :: "MessageFormat \<Rightarrow> byte option" where
  "header_byte m = (case header_tag m of Some (DInt32 c) \<Rightarrow> Some (ucast c) | _ \<Rightarrow> None)"

datatype registry_error = NoHeader | ConflictingHeader byte

text \<open>
  Modelled from the spec: \<open>AddMessageHeader\<close> of the missing package and the registry it
  fills, a map from each header tag byte to the variant that decodes messages with that
  tag. Registering a tag again with the same variant is a no-op; with another variant it
  fails.
\<close>

type_synonym registry = "byte \<Rightarrow> MessageKind option"

definition AddMessageHeader :: "registry \<Rightarrow> MessageKind \<Rightarrow> registry_error + registry" where
  "AddMessageHeader reg k =
     (case header_byte (DefaultMessage k) of
        None \<Rightarrow> Inl NoHeader
      | Some tag \<Rightarrow>
          (case reg tag of
             None \<Rightarrow> Inr (reg(tag \<mapsto> k))
           | Some k' \<Rightarrow> if k' = k then Inr reg else Inl (ConflictingHeader tag)))"

text \<open>
  The registry after the \<open>init\<close> functions of the two message files: \<open>copy_data.go\<close>
  calls \<open>AddMessageHeader(CopyData{})\<close>; \<open>parse_complete.go\<close> registers no header.
\<close>

definition init_registry :: "registry_error + registry" where
  "init_registry = AddMessageHeader Map.empty KCopyData"

text \<open>
  Modelled from the spec: decoding an inbound frame, of the missing package, in two
  phases: peek the header tag byte to select the variant from the registry, then invoke
  that variant's decoding, the parameter \<open>decode_variant\<close>. An unknown tag byte fails
  with \<open>UnknownMessageType\<close> carrying the byte. An empty input has no tag to peek.
\<close>

fun receive ::
  "(MessageKind \<Rightarrow> byte list \<Rightarrow> codec_error + Message) \<Rightarrow> registry \<Rightarrow> byte list
     \<Rightarrow> codec_error + Message" where
  "receive decode_variant reg [] = Inl MalformedMessage"
| "receive decode_variant reg (tag # rest) =
     (case reg tag of
        None \<Rightarrow> Inl (UnknownMessageType tag)
      | Some k \<Rightarrow> decode_variant k (tag # rest))"

section \<open>Properties of the xid serialization\<close>

lemma Uint32_PutUint32: "BigEndian_Uint32 (PutUint32 v) = Some v"
proof -
  have "(ucast (ucast v :: byte) :: uint32) OR push_bit 8 (ucast (ucast (drop_bit 8 v) :: byte))
        OR push_bit 16 (ucast (ucast (drop_bit 16 v) :: byte))
        OR push_bit 24 (ucast (ucast (drop_bit 24 v) :: byte)) = v" (is "?w = v")
  proof (rule bit_word_eqI)
    fix n assume n: "n < LENGTH(32)"
    consider "n < 8" | "8 \<le> n \<and> n < 16" | "16 \<le> n \<and> n < 24" | "24 \<le> n"
      by arith
    then show "bit ?w n = bit v n"
    proof cases
      case 1
      then show ?thesis by (simp add: bit_simps)
    next
      case 2
      then have "n - 8 < 8" "n - 8 < 32" by arith+
      with 2 show ?thesis by (simp add: bit_simps)
    next
      case 3
      then have "n - 16 < 8" "n - 16 < 32" "\<not> n < 8" "\<not> n - 8 < 8" by arith+
      with 3 show ?thesis by (simp add: bit_simps)
    next
      case 4
      with n have "n - 24 < 8" "n - 24 < 32" "\<not> n < 8" "\<not> n - 8 < 8" "\<not> n - 16 < 8"
        by simp_all
      with 4 n show ?thesis by (simp add: bit_simps)
    qed
  qed
  then show ?thesis
    by (simp add: PutUint32_def)
qed

lemma unat_byte_of_uint32: "unat (ucast (w :: uint32) :: byte) = unat w mod 256"
  by (simp add: unsigned_ucast_eq take_bit_eq_mod)

lemma unat_drop_bit_uint32: "unat (drop_bit k (w :: uint32)) = unat w div 2 ^ k"
  unfolding unat_drop_bit_eq by (simp add: drop_bit_eq_div)

lemma base256_digits:
  assumes n: "(n::nat) < 2 ^ 32"
  shows "((n div 2 ^ 24 mod 256 * 256 + n div 2 ^ 16 mod 256) * 256 + n div 2 ^ 8 mod 256) * 256
           + n mod 256 = n"
proof -
  define a where "a = n div 256"
  define b where "b = a div 256"
  define c where "c = b div 256"
  have e1: "n div 2 ^ 8 = a" by (simp add: a_def)
  have e2: "n div 2 ^ 16 = b" by (simp add: a_def b_def div_mult2_eq)
  have e3: "n div 2 ^ 24 = c" by (simp add: a_def b_def c_def div_mult2_eq)
  have "c < 256" using n unfolding e3 [symmetric] by (simp add: less_mult_imp_div_less)
  then have c: "c mod 256 = c" by simp
  have "n = a * 256 + n mod 256" by (simp add: a_def)
  moreover have "a = b * 256 + a mod 256" by (simp add: b_def)
  moreover have "b = c * 256 + b mod 256" by (simp add: c_def)
  ultimately show ?thesis unfolding e1 e2 e3 c by simp
qed

lemma be_nat4: "be_nat [a, b, c, d] = ((unat a * 256 + unat b) * 256 + unat c) * 256 + unat d"
  by (simp add: be_nat_def)

lemma be_nat_PutUint32: "be_nat (PutUint32 v) = unat v"
proof -
  have "unat v < 2 ^ 32" using unsigned_less [of v, where 'a = nat] by simp
  then show ?thesis
    unfolding PutUint32_def be_nat4 unat_byte_of_uint32 unat_drop_bit_uint32
    by (rule base256_digits)
qed

text \<open>
  Claim C9. For every uint32 value \<open>v\<close> that \<open>Convert\<close> hands back unchanged,
  \<open>SerializeValue\<close> yields the four big-endian bytes of \<open>v + 2^31\<close> modulo \<open>2^32\<close>,
  and \<open>DeserializeValue\<close> of these bytes yields \<open>v\<close> again; a nil value serializes
  to the nil slice, and the nil and the empty slice deserialize to nil.
\<close>

theorem XidType_serialize_roundtrip:
  assumes "convert (GoUint32 v) = Inr (GoUint32 v)"
  shows "(\<exists>bs. XidType_SerializeValue convert (GoUint32 v) = Inr (Some bs)
           \<and> length bs = 4
           \<and> be_nat bs = (unat v + 2 ^ 31) mod 2 ^ 32
           \<and> XidType_DeserializeValue (Some bs) = Inr (GoUint32 v))
       \<and> XidType_SerializeValue convert GoNil = Inr None
       \<and> XidType_DeserializeValue None = Inr GoNil
       \<and> XidType_DeserializeValue (Some []) = Inr GoNil"
proof -
  let ?bs = "PutUint32 (v + push_bit 31 1)"
  have s: "XidType_SerializeValue convert (GoUint32 v) = Inr (Some ?bs)"
    using assms by (simp add: XidType_SerializeValue_def)
  have l: "length ?bs = 4"
    by (simp add: PutUint32_def)
  have n: "be_nat ?bs = (unat v + 2 ^ 31) mod 2 ^ 32"
    unfolding be_nat_PutUint32 by (simp add: unat_word_ariths)
  have d: "XidType_DeserializeValue (Some ?bs) = Inr (GoUint32 v)"
    using l by (simp add: XidType_DeserializeValue_def len_bytes_def Uint32_PutUint32)
  have nil1: "XidType_SerializeValue convert GoNil = Inr None"
    by (simp add: XidType_SerializeValue_def)
  have nil2: "XidType_DeserializeValue None = Inr GoNil"
    by (simp add: XidType_DeserializeValue_def len_bytes_def)
  have nil3: "XidType_DeserializeValue (Some []) = Inr GoNil"
    by (simp add: XidType_DeserializeValue_def len_bytes_def)
  from s l n d nil1 nil2 nil3 show ?thesis
    by blast
qed

theorem XidType_serialize_roundtrip_witness:
  "(\<lambda>x. case x of GoUint32 u \<Rightarrow> Inr (GoUint32 u) | _ \<Rightarrow> Inl ErrInvalidType) (GoUint32 5)
      = Inr (GoUint32 5)
   \<and> XidType_SerializeValue
         (\<lambda>x. case x of GoUint32 u \<Rightarrow> Inr (GoUint32 u) | _ \<Rightarrow> Inl ErrInvalidType) (GoUint32 5)
      = Inr (Some [128, 0, 0, 5])
   \<and> XidType_DeserializeValue (Some [128, 0, 0, 5]) = Inr (GoUint32 5)"
  using XidType_serialize_roundtrip
    [of "\<lambda>x. case x of GoUint32 u \<Rightarrow> Inr (GoUint32 u) | _ \<Rightarrow> Inl ErrInvalidType" 5]
  by (simp add: XidType_SerializeValue_def XidType_DeserializeValue_def len_bytes_def
      PutUint32_def)

section \<open>Properties of left\<close>

text \<open>
  Claim C8. For a string and an integer that are not null, \<open>left\<close> returns the prefix of
  byte length \<open>n\<close> when \<open>0 \<le> n \<le> len(s)\<close> and the prefix of byte length \<open>len(s) + n\<close>
  when \<open>-len(s) \<le> n < 0\<close>; outside these bounds the slice expression panics, so the
  function returns exactly when \<open>-len(s) \<le> n \<le> len(s)\<close>.
\<close>

theorem left_string_partial:
  assumes "\<not> str_IsNull s" and "\<not> int_IsNull n"
  shows "left_string s n =
           (if 0 \<le> int_Value n \<and> int_Value n \<le> int (length (str_Value s))
              then Inr \<lparr>str_Value = take (nat (int_Value n)) (str_Value s), str_IsNull = False\<rparr>
            else if - int (length (str_Value s)) \<le> int_Value n \<and> int_Value n < 0
              then Inr \<lparr>str_Value = take (length (str_Value s) - nat (- int_Value n)) (str_Value s),
                        str_IsNull = False\<rparr>
            else Inl PanicSliceBounds)
       \<and> ((\<exists>r. left_string s n = Inr r) \<longleftrightarrow>
              - int (length (str_Value s)) \<le> int_Value n \<and> int_Value n \<le> int (length (str_Value s)))
       \<and> (\<forall>r. left_string s n = Inr r \<longrightarrow>
              int (length (str_Value r)) =
                (if 0 \<le> int_Value n then int_Value n else int (length (str_Value s)) + int_Value n))"
proof -
  let ?len = "int (length (str_Value s))"
  let ?v = "int_Value n"
  have neg: "nat (?len + ?v) = length (str_Value s) - nat (- ?v)" if "?v < 0"
    using that by arith
  have eq: "left_string s n =
           (if 0 \<le> ?v \<and> ?v \<le> ?len
              then Inr \<lparr>str_Value = take (nat ?v) (str_Value s), str_IsNull = False\<rparr>
            else if - ?len \<le> ?v \<and> ?v < 0
              then Inr \<lparr>str_Value = take (length (str_Value s) - nat (- ?v)) (str_Value s),
                        str_IsNull = False\<rparr>
            else Inl PanicSliceBounds)"
    using assms by (auto simp add: left_string_def slice_to_def neg)
  have ok: "(\<exists>r. left_string s n = Inr r) \<longleftrightarrow> - ?len \<le> ?v \<and> ?v \<le> ?len"
    unfolding eq by auto
  have len: "\<forall>r. left_string s n = Inr r \<longrightarrow>
              int (length (str_Value r)) = (if 0 \<le> ?v then ?v else ?len + ?v)"
    unfolding eq by (auto split: if_splits)
  from eq ok len show ?thesis
    by blast
qed

theorem left_string_partial_witness:
  "left_string \<lparr>str_Value = [104, 101, 108, 108, 111], str_IsNull = False\<rparr>
               \<lparr>int_Value = - 2, int_IsNull = False\<rparr>
     = Inr \<lparr>str_Value = [104, 101, 108], str_IsNull = False\<rparr>
   \<and> left_string \<lparr>str_Value = [104, 101, 108, 108, 111], str_IsNull = False\<rparr>
               \<lparr>int_Value = 6, int_IsNull = False\<rparr>
     = Inl PanicSliceBounds"
  using left_string_partial
      [of "\<lparr>str_Value = [104, 101, 108, 108, 111], str_IsNull = False\<rparr>"
          "\<lparr>int_Value = - 2, int_IsNull = False\<rparr>"]
    left_string_partial
      [of "\<lparr>str_Value = [104, 101, 108, 108, 111], str_IsNull = False\<rparr>"
          "\<lparr>int_Value = 6, int_IsNull = False\<rparr>"]
  by simp

section \<open>Properties of the accept loop\<close>

lemma Listener_Accept_actions:
  "fst (Listener_Accept handler rs) =
     map (action_of handler) (takeWhile (\<lambda>r. \<not> listener_closed r) rs)"
proof (induction handler rs rule: Listener_Accept.induct)
  case (1 handler)
  then show ?case by simp
next
  case (2 handler err rest)
  then show ?case by (auto simp add: listener_closed_def split: prod.splits)
next
  case (3 handler conn rest)
  then show ?case by (auto simp add: listener_closed_def split: prod.splits)
qed

lemma Listener_Accept_left:
  "snd (Listener_Accept handler rs) \<longleftrightarrow> list_ex listener_closed rs"
proof (induction handler rs rule: Listener_Accept.induct)
  case (1 handler)
  then show ?case by simp
next
  case (2 handler err rest)
  then show ?case by (auto simp add: listener_closed_def split: prod.splits)
next
  case (3 handler conn rest)
  then show ?case by (auto simp add: listener_closed_def split: prod.splits)
qed

text \<open>
  Claim C7. Run against any sequence of results of \<open>l.listener.Accept()\<close>, the accept
  loop takes exactly one action per result up to the first error that says the listener
  is closed: for a connection it builds the handler and starts it with \<open>go\<close>, and
  does nothing else with the connection; for any other error it prints the error and
  goes on. It leaves the loop exactly when such a closed-listener error has come.
\<close>

theorem Listener_Accept_hands_off:
  "Listener_Accept handler rs =
     (map (action_of handler) (takeWhile (\<lambda>r. \<not> listener_closed r) rs),
      list_ex listener_closed rs)"
  using Listener_Accept_actions [of handler rs] Listener_Accept_left [of handler rs]
  by (cases "Listener_Accept handler rs") simp

section \<open>Properties of the message definitions\<close>

text \<open>
  Claim C4. The schemas of the tagged messages at hand, CopyData and ParseComplete,
  satisfy the framing invariant: one header-tag field first (a 1-byte constant, \<open>'d'\<close>
  and \<open>'1'\<close>), then one 4-byte self-inclusive length field, then the payload fields;
  neither schema has two header-tag fields or two inclusive-length fields.
\<close>

theorem catalog_tagged_framing:
  "tagged_framing copyDataDefault \<and> tagged_framing parseCompleteDefault
   \<and> count_flag Header copyDataDefault = 1 \<and> count_flag MessageLengthInclusive copyDataDefault = 1
   \<and> count_flag Header parseCompleteDefault = 1
   \<and> count_flag MessageLengthInclusive parseCompleteDefault = 1
   \<and> header_tag copyDataDefault = Some (DInt32 100)
   \<and> header_tag parseCompleteDefault = Some (DInt32 49)"
  by (simp add: tagged_framing_def count_flag_def header_tag_def copyDataDefault_def
      parseCompleteDefault_def)

lemma CopyData_Encode_eq:
  "CopyData_Encode m =
     Inr (copyDataDefault\<lparr>mf_Fields :=
            [\<lparr>fld_Name = ''Header'', fld_Type = Byte1, fld_Flags = Header, fld_Data = DInt32 100\<rparr>,
             \<lparr>fld_Name = ''MessageLength'', fld_Type = Int32, fld_Flags = MessageLengthInclusive,
              fld_Data = DInt32 0\<rparr>,
             \<lparr>fld_Name = ''Data'', fld_Type = ByteN, fld_Flags = NoFlags,
              fld_Data = DBytes (Data m)\<rparr>]\<rparr>)"
  by (simp add: CopyData_Encode_def MustWrite_def Copy_def copyDataDefault_def)

lemma CopyData_Encode_structure:
  "CopyData_Encode m = Inr s \<Longrightarrow> field_structure s = field_structure copyDataDefault"
  unfolding CopyData_Encode_eq by (auto simp add: field_structure_def copyDataDefault_def)

lemma CopyData_Encode_Data:
  "CopyData_Encode m = Inr s \<Longrightarrow> MustGet s ''Data'' = Inr (DBytes (Data m))"
  unfolding CopyData_Encode_eq by (auto simp add: MustGet_def copyDataDefault_def)

text \<open>
  Claim C1. For the message variants at hand, decoding the encoding of a message yields
  the message again, for every value of its fields: for CopyData with any \<open>Data\<close>, the
  empty one included, and for ParseComplete.
\<close>

theorem messages_decode_encode:
  "(\<exists>s. CopyData_Encode m = Inr s \<and> CopyData_Decode s = Inr (MsgCopyData m))
   \<and> (\<exists>s. CopyData_Encode \<lparr>Data = []\<rparr> = Inr s
          \<and> CopyData_Decode s = Inr (MsgCopyData \<lparr>Data = []\<rparr>))
   \<and> (\<exists>s. ParseComplete_encode p = Inr s \<and> ParseComplete_decode s = Inr (MsgParseComplete p))"
proof -
  have copy: "\<exists>s. CopyData_Encode m = Inr s \<and> CopyData_Decode s = Inr (MsgCopyData m)"
    for m :: CopyData
  proof -
    obtain s where s: "CopyData_Encode m = Inr s"
      by (simp add: CopyData_Encode_eq)
    have "CopyData_Decode s = Inr (MsgCopyData m)"
      using CopyData_Encode_structure [OF s] CopyData_Encode_Data [OF s]
      by (simp add: CopyData_Decode_def MatchesStructure_def)
    with s show ?thesis by blast
  qed
  have "p = ParseComplete"
    by (cases p) simp
  then have parse: "\<exists>s. ParseComplete_encode p = Inr s
      \<and> ParseComplete_decode s = Inr (MsgParseComplete p)"
    by (simp add: ParseComplete_encode_def ParseComplete_decode_def Copy_def
        MatchesStructure_def)
  from copy [of m] copy [of "\<lparr>Data = []\<rparr>"] parse show ?thesis
    by blast
qed

text \<open>
  Claim C5. Decoding a message format whose sequence of field names, types and flags
  differs from the default schema of the variant fails with \<open>SchemaMismatch\<close> and
  returns no message; the decoding returns a message only when the sequences are equal.
\<close>

theorem decode_schema_mismatch:
  "(CopyData_Decode s = Inl SchemaMismatch
      \<longleftrightarrow> field_structure s \<noteq> field_structure copyDataDefault)
   \<and> ((\<exists>m. CopyData_Decode s = Inr m)
      \<longrightarrow> field_structure s = field_structure copyDataDefault)
   \<and> (ParseComplete_decode s = Inl SchemaMismatch
      \<longleftrightarrow> field_structure s \<noteq> field_structure parseCompleteDefault)
   \<and> ((\<exists>m. ParseComplete_decode s = Inr m)
      \<longleftrightarrow> field_structure s = field_structure parseCompleteDefault)"
proof -
  have get: "MustGet s ''Data'' \<noteq> Inl SchemaMismatch"
    by (simp add: MustGet_def split: option.splits)
  have c1: "CopyData_Decode s = Inl SchemaMismatch
      \<longleftrightarrow> field_structure s \<noteq> field_structure copyDataDefault"
    using get by (auto simp add: CopyData_Decode_def MatchesStructure_def
        split: sum.splits FieldData.splits)
  have c2: "(\<exists>m. CopyData_Decode s = Inr m)
      \<longrightarrow> field_structure s = field_structure copyDataDefault"
    by (auto simp add: CopyData_Decode_def MatchesStructure_def split: if_splits)
  have p1: "ParseComplete_decode s = Inl SchemaMismatch
      \<longleftrightarrow> field_structure s \<noteq> field_structure parseCompleteDefault"
    by (simp add: ParseComplete_decode_def MatchesStructure_def)
  have p2: "(\<exists>m. ParseComplete_decode s = Inr m)
      \<longleftrightarrow> field_structure s = field_structure parseCompleteDefault"
    by (simp add: ParseComplete_decode_def MatchesStructure_def)
  from c1 c2 p1 p2 show ?thesis
    by blast
qed

theorem decode_schema_mismatch_witness:
  "CopyData_Decode parseCompleteDefault = Inl SchemaMismatch
   \<and> field_structure parseCompleteDefault \<noteq> field_structure copyDataDefault
   \<and> ParseComplete_decode copyDataDefault = Inl SchemaMismatch
   \<and> (\<exists>m. CopyData_Decode copyDataDefault = Inr m)
   \<and> (\<exists>m. ParseComplete_decode parseCompleteDefault = Inr m)"
proof -
  have d: "field_structure parseCompleteDefault \<noteq> field_structure copyDataDefault"
    by (simp add: field_structure_def parseCompleteDefault_def copyDataDefault_def)
  have c: "CopyData_Decode copyDataDefault = Inr (MsgCopyData \<lparr>Data = []\<rparr>)"
    by (simp add: CopyData_Decode_def MatchesStructure_def MustGet_def copyDataDefault_def)
  from d c decode_schema_mismatch [of parseCompleteDefault]
    decode_schema_mismatch [of copyDataDefault]
  show ?thesis
    by auto
qed

section \<open>Properties of the varchar conversion\<close>

lemma first_info_size: "first_info c = Some (sz, lo, hi) \<Longrightarrow> 2 \<le> sz \<and> sz \<le> 4"
  by (auto simp add: first_info_def split: if_splits)

lemma rune_width_le: "rune_width s \<le> length s"
  by (cases s) (auto split: option.splits list.splits dest: first_info_size)

lemma rune_width_take: "rune_width s \<le> k \<Longrightarrow> rune_width (take k s) = rune_width s"
proof (cases s)
  case Nil
  then show ?thesis by simp
next
  case (Cons s0 rest)
  assume k: "rune_width s \<le> k"
  show ?thesis
  proof (cases "first_info s0")
    case None
    with Cons k show ?thesis by (cases k) auto
  next
    case (Some t)
    obtain sz lo hi where t: "t = (sz, lo, hi)" by (cases t)
    from Some t first_info_size have sz: "2 \<le> sz" "sz \<le> 4" by auto
    show ?thesis
      using k Cons Some t sz
      by (auto simp add: take_Cons' split: list.splits if_splits)
  qed
qed

lemma RuneCount_Nil [simp]: "RuneCount [] = 0"
  by (simp add: RuneCount.simps)

lemma RuneCount_step: "s \<noteq> [] \<Longrightarrow> RuneCount s = Suc (RuneCount (drop (rune_width s) s))"
  by (subst RuneCount.simps) simp

lemma RuneCount_le_length: "RuneCount s \<le> length s"
proof (induction s rule: RuneCount.induct)
  case (1 s)
  show ?case
  proof (cases "s = []")
    case True
    then show ?thesis by simp
  next
    case False
    from rune_width_pos [OF False] rune_width_le [of s] 1 [OF False]
    show ?thesis by (simp add: RuneCount_step [OF False])
  qed
qed

lemma length_skip_runes: "length (skip_runes n s) \<le> length s"
proof (induction n arbitrary: s)
  case 0
  then show ?case by simp
next
  case (Suc n)
  have "length (skip_runes n (drop (rune_width s) s)) \<le> length (drop (rune_width s) s)"
    by (rule Suc.IH)
  then show ?case by simp
qed

lemma RuneCount_prefix:
  "n \<le> RuneCount s \<Longrightarrow> RuneCount (take (length s - length (skip_runes n s)) s) = n"
proof (induction n arbitrary: s)
  case 0
  then show ?case by simp
next
  case (Suc n)
  then have ne: "s \<noteq> []" by auto
  let ?w = "rune_width s"
  let ?s' = "drop ?w s"
  let ?k' = "length ?s' - length (skip_runes n ?s')"
  from Suc.prems have n: "n \<le> RuneCount ?s'"
    by (simp add: RuneCount_step [OF ne])
  have w: "1 \<le> ?w" "?w \<le> length s"
    using rune_width_pos [OF ne] rune_width_le [of s] by auto
  have k: "length s - length (skip_runes (Suc n) s) = ?w + ?k'"
    using w length_skip_runes [of n ?s'] by simp
  have ne': "take (?w + ?k') s \<noteq> []"
    using ne w by (cases s) auto
  have rw: "rune_width (take (?w + ?k') s) = ?w"
    by (rule rune_width_take) simp
  have "RuneCount (take (?w + ?k') s) = Suc (RuneCount (drop ?w (take (?w + ?k') s)))"
    using RuneCount_step [OF ne'] rw by simp
  also have "drop ?w (take (?w + ?k') s) = take ?k' ?s'"
    by (simp add: drop_take)
  also have "RuneCount (take ?k' ?s') = n"
    by (rule Suc.IH [OF n])
  finally show ?case
    unfolding k .
qed

lemma RuneCount_replicate_ascii: "c < 0x80 \<Longrightarrow> RuneCount (replicate n c) = n"
proof (induction n)
  case 0
  then show ?case by simp
next
  case (Suc n)
  have "first_info c = None" using Suc.prems
    by (auto simp add: first_info_def word_le_nat_alt word_less_nat_alt)
  then have "rune_width (replicate (Suc n) c) = 1" by simp
  with Suc show ?case
    by (simp add: RuneCount_step)
qed

lemma unat_of_nat_uint32: "n < 2 ^ 32 \<Longrightarrow> unat (word_of_nat n :: uint32) = n"
  by (simp add: unat_of_nat)

lemma uint32_less_of_nat:
  "n < 2 ^ 32 \<Longrightarrow> (len :: uint32) < word_of_nat n \<longleftrightarrow> unat len < n"
  by (simp add: word_less_nat_alt unat_of_nat_uint32)

text \<open>
  On an input of fewer than \<open>2^32\<close> bytes the casts to \<open>uint32\<close> lose nothing: the
  result is a prefix of the input that holds its first \<open>Length\<close> runes, or all of it
  when it has no more than \<open>Length\<close> runes.
\<close>

lemma truncate_runes_bounded:
  assumes "length val < 2 ^ 32"
  shows "RuneCount (truncate_runes len val) = min (RuneCount val) (unat len)
       \<and> (\<exists>k. truncate_runes len val = take k val)
       \<and> (RuneCount val \<le> unat len \<longrightarrow> truncate_runes len val = val)"
proof -
  have rc: "RuneCount val < 2 ^ 32"
    using RuneCount_le_length [of val] assms by simp
  have whole: "\<exists>k. val = take k val"
    by (rule exI [of _ "length val"]) simp
  show ?thesis
  proof (cases "unat len < RuneCount val")
    case True
    then have "unat len < length val"
      using RuneCount_le_length [of val] by simp
    with True have t: "truncate_runes len val =
        take (length val - length (skip_runes (unat len) val)) val"
      by (simp add: truncate_runes_def uint32_less_of_nat [OF assms] uint32_less_of_nat [OF rc])
    from True have "unat len \<le> RuneCount val" by simp
    from RuneCount_prefix [OF this] True t show ?thesis
      by auto
  next
    case False
    then have "truncate_runes len val = val"
      by (simp add: truncate_runes_def uint32_less_of_nat [OF rc])
    with False whole show ?thesis
      by auto
  qed
qed

lemma VarCharType_Convert_bounded:
  assumes "length v < 2 ^ 32"
  shows "\<exists>r. VarCharType_Convert b (GoString v) = (GoString r, InRange, None)
           \<and> VarCharType_Convert b (GoBytes (Some v)) = (GoString r, InRange, None)
           \<and> RuneCount r = min (RuneCount v) (unat (Length b))
           \<and> RuneCount r \<le> unat (Length b)"
  using truncate_runes_bounded [OF assms, of "Length b"]
  by (simp add: VarCharType_Convert_def)

lemma VarCharType_Convert_no_error:
  "val = GoString v \<or> val = GoBytes w \<Longrightarrow>
     \<exists>r. VarCharType_Convert b val = (GoString r, InRange, None)"
  by (auto simp add: VarCharType_Convert_def)

text \<open>
  Claim C10, at an input of \<open>2^32\<close> bytes, each the letter \<open>a\<close>, for a type of length
  10: \<open>uint32(len(val))\<close> is 0, so the byte-length check fails and the input comes back
  whole, in range and without an error, although it holds \<open>2^32\<close> runes, more than 10.
\<close>

theorem VarCharType_Convert_long_input:
  "VarCharType_Convert \<lparr>Length = 10\<rparr> (GoString (replicate (2 ^ 32) 97))
     = (GoString (replicate (2 ^ 32) 97), InRange, None)
   \<and> RuneCount (replicate (2 ^ 32) 97) = 2 ^ 32
   \<and> unat (Length \<lparr>Length = 10\<rparr>) < RuneCount (replicate (2 ^ 32) 97)"
proof -
  have "(word_of_nat (length (replicate (2 ^ 32) (97 :: byte))) :: uint32) = 0"
    by simp
  then have "truncate_runes 10 (replicate (2 ^ 32) 97) = replicate (2 ^ 32) 97"
    unfolding truncate_runes_def by simp
  moreover have "RuneCount (replicate (2 ^ 32) 97) = 2 ^ 32"
    by (rule RuneCount_replicate_ascii) simp
  ultimately show ?thesis
    by (simp add: VarCharType_Convert_def)
qed

section \<open>Properties of the codec engine and the registry\<close>

lemma be_nat_PutUint32_of_nat: "n < 2 ^ 32 \<Longrightarrow> be_nat (PutUint32 (word_of_nat n)) = n"
  by (simp add: be_nat_PutUint32 unat_of_nat)

lemma length_PutUint32: "length (PutUint32 v) = 4"
  by (simp add: PutUint32_def)

lemma encode_tagged_shape:
  assumes "tagged_framing m" and "encode m = Inr bs"
  shows "\<exists>tag payload. bs = tag # PutUint32 (word_of_nat (4 + length payload)) @ payload
           \<and> 4 + length payload < 2 ^ 31"
proof -
  from assms(1) obtain h l pf where
    fs: "mf_Fields m = h # l # pf" and
    h: "fld_Flags h = Header" "fld_Type h = Byte1" and
    l: "fld_Flags l = MessageLengthInclusive"
    by (auto simp add: tagged_framing_def split: list.splits)
  from assms(1) fs obtain c where c: "fld_Data h = DInt32 c"
    by (cases "fld_Data h") (auto simp add: tagged_framing_def)
  have "encode_fields (mf_Fields m) = Some bs"
    using assms(2) by (cases "encode_fields (mf_Fields m)") (simp_all add: encode_def)
  then have e: "encode_fields (h # l # pf) = Some bs"
    unfolding fs .
  show ?thesis
  proof (cases "encode_fields pf")
    case None
    with e show ?thesis by simp
  next
    case (Some staged)
    show ?thesis
    proof (cases "4 + length staged < 2 ^ 31")
      case False
      with e Some l show ?thesis by simp
    next
      case True
      with e Some l h c
      have "bs = ucast c # PutUint32 (word_of_nat (4 + length staged)) @ staged"
        by simp
      with True show ?thesis by blast
    qed
  qed
qed

lemma wire_length_tagged:
  assumes "n < 2 ^ 32"
  shows "wire_length (tag # PutUint32 (word_of_nat n) @ payload) = n"
  using assms by (simp add: wire_length_def length_PutUint32 be_nat_PutUint32_of_nat)

lemma encode_ParseComplete:
  "ParseComplete_encode p = Inr s \<Longrightarrow> encode s = Inr (49 # PutUint32 4)"
  by (auto simp add: ParseComplete_encode_def Copy_def parseCompleteDefault_def encode_def)

lemma encode_CopyData:
  "CopyData_Encode c = Inr s \<Longrightarrow>
     encode s = (if 4 + length (Data c) < 2 ^ 31
                 then Inr (100 # PutUint32 (word_of_nat (4 + length (Data c))) @ Data c)
                 else Inl MalformedMessage)"
  unfolding CopyData_Encode_eq by (auto simp add: encode_def copyDataDefault_def)

text \<open>
  Claim C2. In every encoded tagged message the value of the inclusive length field is
  the number of bytes from the length field itself to the end of the message: it is 4
  for ParseComplete, and \<open>4 + len(Data)\<close> for CopyData with the payload \<open>Data\<close>, which
  follows the length field unchanged.
\<close>

theorem inclusive_length_correct:
  "(tagged_framing m \<and> encode m = Inr bs \<longrightarrow> 5 \<le> length bs \<and> wire_length bs = length bs - 1)
   \<and> (\<exists>s bs. ParseComplete_encode p = Inr s \<and> encode s = Inr bs \<and> wire_length bs = 4)
   \<and> (\<forall>s bs. CopyData_Encode c = Inr s \<and> encode s = Inr bs
          \<longrightarrow> wire_length bs = 4 + length (Data c) \<and> drop 5 bs = Data c)
   \<and> (4 + length (Data c) < 2 ^ 31 \<longrightarrow> (\<exists>s bs. CopyData_Encode c = Inr s \<and> encode s = Inr bs))"
proof -
  have g: "tagged_framing m \<and> encode m = Inr bs \<longrightarrow> 5 \<le> length bs \<and> wire_length bs = length bs - 1"
  proof
    assume a: "tagged_framing m \<and> encode m = Inr bs"
    then obtain tag payload where
      bs: "bs = tag # PutUint32 (word_of_nat (4 + length payload)) @ payload"
      and n: "4 + length payload < 2 ^ 31"
      using encode_tagged_shape by blast
    from n have "4 + length payload < (2 :: nat) ^ 32"
      by simp
    from wire_length_tagged [OF this] bs
    show "5 \<le> length bs \<and> wire_length bs = length bs - 1"
      by (simp add: length_PutUint32)
  qed
  have pc: "\<exists>s bs. ParseComplete_encode p = Inr s \<and> encode s = Inr bs \<and> wire_length bs = 4"
  proof -
    obtain s where s: "ParseComplete_encode p = Inr s"
      by (simp add: ParseComplete_encode_def)
    have "wire_length (49 # PutUint32 (word_of_nat 4) @ []) = 4"
      by (rule wire_length_tagged) simp
    with s encode_ParseComplete [OF s] show ?thesis
      by auto
  qed
  have cd: "\<forall>s bs. CopyData_Encode c = Inr s \<and> encode s = Inr bs
          \<longrightarrow> wire_length bs = 4 + length (Data c) \<and> drop 5 bs = Data c"
  proof (intro allI impI)
    fix s bs
    assume a: "CopyData_Encode c = Inr s \<and> encode s = Inr bs"
    with encode_CopyData [of c s] have n: "4 + length (Data c) < 2 ^ 31"
      and bs: "bs = 100 # PutUint32 (word_of_nat (4 + length (Data c))) @ Data c"
      by (auto split: if_splits)
    from n have "4 + length (Data c) < (2 :: nat) ^ 32"
      by simp
    from wire_length_tagged [OF this] bs
    show "wire_length bs = 4 + length (Data c) \<and> drop 5 bs = Data c"
      by (simp add: length_PutUint32)
  qed
  have ok: "4 + length (Data c) < 2 ^ 31 \<longrightarrow> (\<exists>s bs. CopyData_Encode c = Inr s \<and> encode s = Inr bs)"
  proof
    assume n: "4 + length (Data c) < 2 ^ 31"
    obtain s where s: "CopyData_Encode c = Inr s"
      by (simp add: CopyData_Encode_eq)
    with encode_CopyData [OF s] n show "\<exists>s bs. CopyData_Encode c = Inr s \<and> encode s = Inr bs"
      by auto
  qed
  from g pc cd ok show ?thesis
    by blast
qed

theorem inclusive_length_correct_witness:
  "tagged_framing copyDataDefault
   \<and> encode copyDataDefault = Inr [100, 0, 0, 0, 4]
   \<and> wire_length [100, 0, 0, 0, 4] = 4
   \<and> (\<exists>s. CopyData_Encode \<lparr>Data = [1, 2, 3]\<rparr> = Inr s
          \<and> encode s = Inr [100, 0, 0, 0, 7, 1, 2, 3])
   \<and> wire_length [100, 0, 0, 0, 7, 1, 2, 3] = 4 + length [1 :: byte, 2, 3]"
proof -
  have t: "tagged_framing copyDataDefault"
    by (simp add: tagged_framing_def copyDataDefault_def)
  have e: "encode copyDataDefault = Inr [100, 0, 0, 0, 4]"
    by (simp add: encode_def copyDataDefault_def PutUint32_def)
  obtain s where s: "CopyData_Encode \<lparr>Data = [1, 2, 3]\<rparr> = Inr s"
    by (simp add: CopyData_Encode_eq)
  have es: "encode s = Inr [100, 0, 0, 0, 7, 1, 2, 3]"
    using s unfolding CopyData_Encode_eq
    by (auto simp add: encode_def copyDataDefault_def PutUint32_def)
  from t e s es
    inclusive_length_correct [of copyDataDefault "[100, 0, 0, 0, 4]" ParseComplete
      "\<lparr>Data = [1, 2, 3]\<rparr>"]
  show ?thesis
    by auto
qed

text \<open>
  Claim C6. A frame whose header tag is not in the registry fails to decode with
  \<open>UnknownMessageType\<close> carrying the tag, and a frame that decodes to a message was
  decoded by the variant registered for its tag. The \<open>init\<close> functions of the message
  files register the tag \<open>'d'\<close> of CopyData only, so every other tag is unknown.
\<close>

theorem unknown_tag_rejected:
  "(reg tag = None \<longrightarrow> receive dec reg (tag # rest) = Inl (UnknownMessageType tag))
   \<and> (\<forall>m. receive dec reg (tag # rest) = Inr m
          \<longrightarrow> (\<exists>k. reg tag = Some k \<and> dec k (tag # rest) = Inr m))
   \<and> (\<exists>reg0. init_registry = Inr reg0 \<and> reg0 100 = Some KCopyData
          \<and> (tag \<noteq> 100 \<longrightarrow> reg0 tag = None
                \<and> receive dec reg0 (tag # rest) = Inl (UnknownMessageType tag)))"
proof -
  have a: "reg tag = None \<longrightarrow> receive dec reg (tag # rest) = Inl (UnknownMessageType tag)"
    by simp
  have b: "\<forall>m. receive dec reg (tag # rest) = Inr m
          \<longrightarrow> (\<exists>k. reg tag = Some k \<and> dec k (tag # rest) = Inr m)"
    by (cases "reg tag") simp_all
  have h: "header_byte copyDataDefault = Some 100"
    by (simp add: header_byte_def header_tag_def copyDataDefault_def)
  have i: "init_registry = Inr (Map.empty(100 \<mapsto> KCopyData))"
    by (simp add: init_registry_def AddMessageHeader_def h)
  have c: "\<exists>reg0. init_registry = Inr reg0 \<and> reg0 100 = Some KCopyData
          \<and> (tag \<noteq> 100 \<longrightarrow> reg0 tag = None
                \<and> receive dec reg0 (tag # rest) = Inl (UnknownMessageType tag))"
    unfolding i by simp
  from a b c show ?thesis
    by blast
qed

theorem unknown_tag_rejected_witness:
  "(Map.empty(100 \<mapsto> KCopyData)) (49 :: byte) = None
   \<and> receive (\<lambda>k bs. case k of KCopyData \<Rightarrow> Inr (MsgCopyData \<lparr>Data = drop 5 bs\<rparr>)
                     | KParseComplete \<Rightarrow> Inr (MsgParseComplete ParseComplete)) (Map.empty(100 \<mapsto> KCopyData))
         [49, 0, 0, 0, 4] = Inl (UnknownMessageType 49)
   \<and> receive (\<lambda>k bs. case k of KCopyData \<Rightarrow> Inr (MsgCopyData \<lparr>Data = drop 5 bs\<rparr>)
                     | KParseComplete \<Rightarrow> Inr (MsgParseComplete ParseComplete)) (Map.empty(100 \<mapsto> KCopyData))
         [100, 0, 0, 0, 4] = Inr (MsgCopyData \<lparr>Data = []\<rparr>)
   \<and> init_registry = Inr (Map.empty(100 \<mapsto> KCopyData))"
  using unknown_tag_rejected
      [of "Map.empty(100 \<mapsto> KCopyData)" 49 "\<lambda>k bs. case k of KCopyData \<Rightarrow> Inr (MsgCopyData \<lparr>Data = drop 5 bs\<rparr>)
                     | KParseComplete \<Rightarrow> Inr (MsgParseComplete ParseComplete)"
          "[0, 0, 0, 4]"]
    unknown_tag_rejected
      [of "Map.empty(100 \<mapsto> KCopyData)" 100 "\<lambda>k bs. case k of KCopyData \<Rightarrow> Inr (MsgCopyData \<lparr>Data = drop 5 bs\<rparr>)
                     | KParseComplete \<Rightarrow> Inr (MsgParseComplete ParseComplete)"
          "[0, 0, 0, 4]"]
  by (simp add: init_registry_def AddMessageHeader_def header_byte_def header_tag_def
      copyDataDefault_def)


end
